theory Spec2Isabelle
  imports Complex_Main "HOL-Library.Word"
begin

unbundle bit_operations_syntax

section \<open>Machine types and aborts\<close>

type_synonym u8 = "8 word"
type_synonym u16 = "16 word"
type_synonym u32 = "32 word"

text \<open>
  The ways a run of the program ends without reaching its last statement: the
  \<^verbatim>\<open>os.Exit(0)\<close> after a failed dial, the run-time panics of Go that the
  statements of \<^verbatim>\<open>main.go\<close> can raise (an index out of range, \<^verbatim>\<open>make\<close> with
  a length out of range, a \<^verbatim>\<open>bytes.Buffer\<close> that cannot grow, an integer division
  by zero), and the death of the process when the runtime cannot obtain the memory a
  statement asks for.
\<close>

datatype abort =
  HostNotFound | IndexOutOfRange | MakeSliceLen | BufferTooLarge | OutOfMemory
  | IntegerDivideByZero

text \<open>A Go \<^verbatim>\<open>error\<close> value is its message; \<^verbatim>\<open>nil\<close> is \<open>None\<close>.\<close>

type_synonym go_error = "string option"

section \<open>checkSum (main.go, lines 132-155)\<close>

text \<open>
  The first loop of \<^verbatim>\<open>checkSum\<close>:
  \<^verbatim>\<open>for len > 1 { sum += uint32(data[idx])<<8 + uint32(data[idx+1]); len -= 2; idx += 2 }\<close>.
  In Go \<^verbatim>\<open><<\<close> binds tighter than \<^verbatim>\<open>+\<close>. The accumulator is a \<^verbatim>\<open>uint32\<close>, whose
  addition wraps. Reading \<^verbatim>\<open>data\<close> outside its bounds panics. \<^verbatim>\<open>len\<close> is only
  decremented when it is above 1, so it never goes below zero and is a \<open>nat\<close> here.
\<close>

function checkSum_pairs :: "u8 list \<Rightarrow> nat \<Rightarrow> nat \<Rightarrow> u32 \<Rightarrow> abort + (nat \<times> nat \<times> u32)" where
  "checkSum_pairs data len idx sum32 =
     (if len > 1 then
        (if idx + 1 < length data then
           checkSum_pairs data (len - 2) (idx + 2)
             (sum32 + (push_bit 8 (ucast (data ! idx)) + ucast (data ! (idx + 1))))
         else Inl IndexOutOfRange)
      else Inr (len, idx, sum32))"
  by pat_completeness auto
termination
  by (relation "measure (\<lambda>(data, len, idx, sum32). len)") auto

text \<open>
  The second loop:
  \<^verbatim>\<open>hi16 := sum >> 16; for hi16 != 0 { sum = hi16 + uint32(uint16(sum)); hi16 = sum >> 16 }\<close>.
  At every test of the loop \<^verbatim>\<open>hi16\<close> is \<^verbatim>\<open>sum >> 16\<close>.
\<close>

function checkSum_fold :: "u32 \<Rightarrow> u32" where
  "checkSum_fold sum32 =
     (let hi16 = drop_bit 16 sum32 in
      if hi16 \<noteq> 0 then checkSum_fold (hi16 + ucast (ucast sum32 :: u16)) else sum32)"
  by pat_completeness auto

lemma checkSum_fold_step:
  "unat (drop_bit 16 (s :: u32) + ucast (ucast s :: u16)) = unat s div 65536 + unat s mod 65536"
proof -
  have hi: "unat (drop_bit 16 s) = unat s div 65536"
    by (simp add: unat_drop_bit_eq drop_bit_eq_div unat_div)
  have lo: "unat (ucast (ucast s :: u16) :: u32) = unat s mod 65536"
    by (simp add: take_bit_eq_mod unsigned_ucast_eq unat_mod)
  have "unat s < 2 ^ 32"
    using unsigned_less [of s, where 'a = nat] by simp
  then have "unat s div 65536 + unat s mod 65536 < 2 ^ 32"
    by simp
  with hi lo show ?thesis
    by (simp add: unat_word_ariths)
qed

lemma checkSum_fold_decreases:
  assumes "drop_bit 16 (s :: u32) \<noteq> 0"
  shows "unat (drop_bit 16 s + ucast (ucast s :: u16)) < unat s"
proof -
  have "unat (drop_bit 16 s) = unat s div 65536"
    by (simp add: unat_drop_bit_eq drop_bit_eq_div unat_div)
  moreover from assms have "unat (drop_bit 16 s) \<noteq> 0"
    by (simp add: unat_eq_0)
  ultimately have q: "0 < unat s div 65536"
    by simp
  have "unat s = 65536 * (unat s div 65536) + unat s mod 65536"
    by simp
  with q have "unat s div 65536 + unat s mod 65536 < unat s"
    by linarith
  then show ?thesis
    by (simp only: checkSum_fold_step)
qed

termination checkSum_fold
  by (relation "measure unat") (auto simp: checkSum_fold_decreases)

declare checkSum_pairs.simps [simp del]
declare checkSum_fold.simps [simp del]

text \<open>
  The rest of \<^verbatim>\<open>checkSum\<close>: \<^verbatim>\<open>if len == 1 { sum += uint32(data[idx]) }\<close>, the
  fold, and \<^verbatim>\<open>return uint16(^sum), nil\<close>. The function returns a pair of the
  checksum and an \<^verbatim>\<open>error\<close>.
\<close>

definition checkSum :: "u8 list \<Rightarrow> abort + (u16 \<times> go_error)" where
  "checkSum data =
     (case checkSum_pairs data (length data) 0 0 of
        Inl a \<Rightarrow> Inl a
      | Inr (len, idx, sum32) \<Rightarrow>
          if len = 1 then
            (if idx < length data then
               Inr (ucast (NOT (checkSum_fold (sum32 + ucast (data ! idx)))), None)
             else Inl IndexOutOfRange)
          else Inr (ucast (NOT (checkSum_fold sum32)), None))"

section \<open>The checksum as the specification words it\<close>

text \<open>
  Section 4.4 of the specification: the 16-bit big-endian words
  \<^verbatim>\<open>byte[2k] << 8 | byte[2k+1]\<close> are summed into a 32-bit accumulator, a final
  unpaired byte is added unshifted, the sum is folded by adding its high 16 bits to
  its low 16 bits until the high 16 bits are zero, and the complement of the 16-bit
  result is returned.
\<close>

definition rfc1071_word :: "u8 list \<Rightarrow> nat \<Rightarrow> u32" where
  "rfc1071_word data k = push_bit 8 (ucast (data ! (2 * k))) OR ucast (data ! (2 * k + 1))"

definition rfc1071_sum :: "u8 list \<Rightarrow> u32" where
  "rfc1071_sum data =
     sum_list (map (rfc1071_word data) [0 ..< length data div 2])
       + (if odd (length data) then ucast (last data) else 0)"

function rfc1071_fold :: "u32 \<Rightarrow> u32" where
  "rfc1071_fold s =
     (if drop_bit 16 s = 0 then s else rfc1071_fold (drop_bit 16 s + (s AND 0xFFFF)))"
  by pat_completeness auto

lemma low16_as_cast: "(s :: u32) AND 0xFFFF = ucast (ucast s :: u16)"
proof -
  have "(s :: u32) AND mask 16 = ucast (ucast s :: u16)"
    by (simp add: unsigned_ucast_eq take_bit_eq_mask)
  then show ?thesis
    by (simp add: mask_eq_exp_minus_1)
qed

lemma rfc1071_fold_decreases:
  "drop_bit 16 (s :: u32) \<noteq> 0 \<Longrightarrow> unat (drop_bit 16 s + (s AND 0xFFFF)) < unat s"
  unfolding low16_as_cast by (rule checkSum_fold_decreases)

termination rfc1071_fold
proof (relation "measure unat")
  show "wf (measure (unat :: u32 \<Rightarrow> nat))"
    by simp
next
  fix s :: u32
  assume hi: "drop_bit 16 s \<noteq> 0"
  show "(drop_bit 16 s + (s AND 0xFFFF), s) \<in> measure unat"
    using rfc1071_fold_decreases [OF hi] by (simp only: in_measure)
qed

declare rfc1071_fold.simps [simp del]

definition rfc1071_checksum :: "u8 list \<Rightarrow> u16" where
  "rfc1071_checksum data = NOT (ucast (rfc1071_fold (rfc1071_sum data)) :: u16)"

section \<open>The ICMP header (main.go, lines 27-33 and 59-76)\<close>

record ICMP =
  Type :: u8
  Code :: u8
  CheckSum :: u16
  ID :: u16
  SeqNum :: u16

text \<open>
  \<^verbatim>\<open>binary.Write(&buffer, binary.BigEndian, icmp)\<close> appends the fields of the
  struct in their order, each 16-bit field as its high byte then its low byte.
\<close>

definition be16 :: "u16 \<Rightarrow> u8 list" where
  "be16 w = [ucast (drop_bit 8 w), ucast w]"

definition binary_Write_BigEndian :: "ICMP \<Rightarrow> u8 list" where
  "binary_Write_BigEndian icmp =
     [Type icmp, Code icmp] @ be16 (CheckSum icmp) @ be16 (ID icmp) @ be16 (SeqNum icmp)"

text \<open>
  \<^verbatim>\<open>make([]byte, size)\<close> panics with \<^verbatim>\<open>makeslice: len out of range\<close> when the
  length is negative or above the limit \<^verbatim>\<open>maxAlloc\<close> of the Go runtime, which is
  \<^verbatim>\<open>1 << 48\<close> bytes on linux/amd64 and the other 64-bit platforms with 48 heap
  address bits (smaller elsewhere).
\<close>

definition maxAlloc :: int where
  "maxAlloc = 2 ^ 48"

text \<open>
  Lines 59-76: the header of attempt \<open>i\<close> with \<^verbatim>\<open>uint16(i)\<close> as identifier and
  sequence number, followed by \<^verbatim>\<open>make([]byte, size)\<close>, which is \<open>size'\<close> zero
  bytes (\<open>size'\<close> is the global \<^verbatim>\<open>size\<close>) and panics when the length is out of
  range. \<^verbatim>\<open>buffer.Write(data)\<close> then grows the buffer, which holds the 8 bytes of
  the header, to at least \<open>8 + size'\<close> bytes with a \<^verbatim>\<open>make\<close> of its own, and
  panics with \<^verbatim>\<open>bytes.ErrTooLarge\<close> when that length is out of range. Lengths
  within the range do not make the two allocations succeed: the runtime may be
  unable to obtain the memory (a fatal error, or \<^verbatim>\<open>bytes.ErrTooLarge\<close> again).
  Whether that happens depends on the machine and is the input \<open>no_mem\<close>; the run
  ends there too.
\<close>

definition request_buffer :: "bool \<Rightarrow> int \<Rightarrow> int \<Rightarrow> abort + u8 list" where
  "request_buffer no_mem i size' =
     (let icmp = \<lparr>Type = 8, Code = 0, CheckSum = 0, ID = word_of_int i, SeqNum = word_of_int i\<rparr>;
          buffer = binary_Write_BigEndian icmp
      in if size' < 0 \<or> maxAlloc < size' then Inl MakeSliceLen
         else if maxAlloc < 8 + size' then Inl BufferTooLarge
         else if no_mem then Inl OutOfMemory
         else Inr (buffer @ replicate (nat size') 0))"

section \<open>The program state and the transport\<close>

text \<open>
  The lines the loop prints: the fixed line after a failed write (line 96, in
  Chinese: request failed), the fixed line after a failed read (line 115: request
  timed out), and the reply line of line 119 with its seven arguments
  \<^verbatim>\<open>buf[12], buf[13], buf[14], buf[15], n-28, tSpend, buf[8]\<close>.
\<close>

datatype line = RequestFailed | RequestTimedOut | Reply u8 u8 u8 u8 int int u8

text \<open>
  The global counters of lines 18-23, together with what the run has done to the
  outside: the datagrams handed to \<^verbatim>\<open>conn.Write\<close> and the lines printed by the
  loop. The counters \<^verbatim>\<open>sendCount\<close>, \<^verbatim>\<open>successCount\<close> and \<^verbatim>\<open>failCount\<close> go up
  by one at most once per iteration of a loop bounded by the \<^verbatim>\<open>int\<close> \<^verbatim>\<open>count\<close>, so
  they never wrap; \<^verbatim>\<open>totalTs\<close> is an \<^verbatim>\<open>int64\<close> sum and its wrap-around is written
  out.
\<close>

record state =
  sendCount :: int
  successCount :: int
  failCount :: int
  minTs :: int
  maxTs :: int
  totalTs :: int
  wire :: "u8 list list"
  printed :: "line list"

definition init_state :: state where
  "init_state =
     \<lparr>sendCount = 0, successCount = 0, failCount = 0,
      minTs = 2147483647, maxTs = 0, totalTs = 0, wire = [], printed = []\<rparr>"

text \<open>
  What the machine, the transport and the clock do during one attempt: whether the
  memory for the request buffer cannot be provided (see \<open>request_buffer\<close>), whether
  \<^verbatim>\<open>conn.Write\<close> returns an error, the wall-clock milliseconds the attempt takes
  from \<^verbatim>\<open>tStart\<close> (an \<^verbatim>\<open>int64\<close>), the bytes \<^verbatim>\<open>conn.Read\<close> delivers, and whether
  \<^verbatim>\<open>conn.Read\<close> returns an error (a timeout is one).
\<close>

record response =
  no_memory :: bool
  write_err :: bool
  elapsed :: int
  rcv :: "u8 list"
  read_err :: bool

definition wrap64 :: "int \<Rightarrow> int" where
  "wrap64 x = (x + 2 ^ 63) mod 2 ^ 64 - 2 ^ 63"

text \<open>
  \<^verbatim>\<open>buf := make([]byte, 1<<16); n, err := conn.Read(buf)\<close>: a fresh buffer of
  65536 zero bytes whose first \<open>n\<close> bytes are overwritten by the datagram.
\<close>

definition read_n :: "u8 list \<Rightarrow> int" where
  "read_n bytes = int (min (length bytes) 65536)"

definition read_buf :: "u8 list \<Rightarrow> u8 list" where
  "read_buf bytes = take 65536 bytes @ replicate (65536 - length bytes) 0"

section \<open>One iteration of the loop of ping (main.go, lines 55-120)\<close>

text \<open>Lines 104-111: the elapsed time enters the total, the minimum and the maximum.\<close>

definition record_time :: "int \<Rightarrow> state \<Rightarrow> state" where
  "record_time tSpend st =
     (let st1 = st\<lparr>totalTs := wrap64 (totalTs st + tSpend)\<rparr>;
          st2 = (if minTs st1 > tSpend then st1\<lparr>minTs := tSpend\<rparr> else st1)
      in if maxTs st2 < tSpend then st2\<lparr>maxTs := tSpend\<rparr> else st2)"

text \<open>Lines 88-119, from \<^verbatim>\<open>conn.Write(data)\<close> on.\<close>

definition transmit :: "response \<Rightarrow> u8 list \<Rightarrow> state \<Rightarrow> state" where
  "transmit r data st0 =
     (let st = st0\<lparr>wire := wire st0 @ [data]\<rparr> in
      if write_err r then
        st\<lparr>failCount := failCount st + 1, printed := printed st @ [RequestFailed]\<rparr>
      else
        let buf = read_buf (rcv r);
            n = read_n (rcv r);
            tSpend = elapsed r;
            st' = record_time tSpend st
        in if read_err r then
             st'\<lparr>failCount := failCount st' + 1, printed := printed st' @ [RequestTimedOut]\<rparr>
           else
             st'\<lparr>successCount := successCount st' + 1,
                 printed := printed st' @
                   [Reply (buf ! 12) (buf ! 13) (buf ! 14) (buf ! 15) (n - 28) tSpend (buf ! 8)]\<rparr>)"

text \<open>
  The whole body of the loop for index \<open>i\<close>. The counter \<^verbatim>\<open>sendCount\<close> goes up
  first; a run that ends in the allocation of the buffer ends there. The buffer has
  at least the 8 bytes of the header, so the writes to \<^verbatim>\<open>data[2]\<close> and
  \<^verbatim>\<open>data[3]\<close> are in range.
\<close>

definition attempt :: "(int \<Rightarrow> response) \<Rightarrow> int \<Rightarrow> int \<Rightarrow> state \<Rightarrow> abort + state" where
  "attempt env size' i st0 =
     (let st = st0\<lparr>sendCount := sendCount st0 + 1\<rparr> in
      case request_buffer (no_memory (env i)) i size' of
        Inl a \<Rightarrow> Inl a
      | Inr data \<Rightarrow>
          (case checkSum data of
             Inl a \<Rightarrow> Inl a
           | Inr (c, Some err) \<Rightarrow> Inr (st\<lparr>failCount := failCount st + 1\<rparr>)
           | Inr (c, None) \<Rightarrow>
               Inr (transmit (env i) (data[2 := ucast (drop_bit 8 c), 3 := ucast c]) st)))"

function ping_loop :: "(int \<Rightarrow> response) \<Rightarrow> int \<Rightarrow> int \<Rightarrow> int \<Rightarrow> state \<Rightarrow> abort + state" where
  "ping_loop env size' count i st =
     (if i < count then
        (case attempt env size' i st of
           Inl a \<Rightarrow> Inl a
         | Inr st' \<Rightarrow> ping_loop env size' count (i + 1) st')
      else Inr st)"
  by pat_completeness auto
termination
  by (relation "measure (\<lambda>(env, size', count, i, st). nat (count - i))") auto

declare ping_loop.simps [simp del]

section \<open>The final summary (main.go, lines 123-124)\<close>

text \<open>
  The arguments of the last \<^verbatim>\<open>Printf\<close> after the remote address. The fourth is
  \<^verbatim>\<open>float64(failCount)/float64(sendCount)\<close>: the model keeps the exact quotient, of
  which the \<^verbatim>\<open>float64\<close> is the nearest double (the same number when the quotient
  is a dyadic fraction such as 1/4); a floating-point division by zero does not
  panic. The last is \<^verbatim>\<open>totalTs/int64(sendCount)\<close>, an integer division, which
  truncates towards zero and panics when the divisor is zero, before anything is
  printed.
\<close>

record summary =
  sent :: int
  received :: int
  lost :: int
  loss :: real
  shortest :: int
  longest :: int
  average :: int

definition go_div :: "int \<Rightarrow> int \<Rightarrow> int" where
  "go_div a b = wrap64 (sgn a * sgn b * (\<bar>a\<bar> div \<bar>b\<bar>))"

definition ping_summary :: "state \<Rightarrow> abort + summary" where
  "ping_summary st =
     (if sendCount st = 0 then Inl IntegerDivideByZero
      else Inr \<lparr>sent = sendCount st, received = successCount st, lost = failCount st,
                loss = real_of_int (failCount st) / real_of_int (sendCount st),
                shortest = minTs st, longest = maxTs st,
                average = go_div (totalTs st) (sendCount st)\<rparr>)"

text \<open>
  \<^verbatim>\<open>ping\<close>: a failed dial prints the host-not-found line and exits; otherwise the
  loop runs from \<open>i = 0\<close> on the initial globals and the summary is printed.
\<close>

definition ping :: "bool \<Rightarrow> (int \<Rightarrow> response) \<Rightarrow> int \<Rightarrow> int \<Rightarrow> abort + (state \<times> summary)" where
  "ping dial_ok env size' count =
     (if \<not> dial_ok then Inl HostNotFound
      else case ping_loop env size' count 0 init_state of
             Inl a \<Rightarrow> Inl a
           | Inr st \<Rightarrow> (case ping_summary st of Inl a \<Rightarrow> Inl a | Inr s \<Rightarrow> Inr (st, s)))"

section \<open>Auxiliary definitions for the statements and proofs\<close>

text \<open>
  The sum \<^verbatim>\<open>checkSum\<close> accumulates, by recursion on the bytes: \<open>wsum\<close> with the
  trailing unpaired byte, \<open>pairs_only\<close> without it.
\<close>

fun wsum :: "u8 list \<Rightarrow> u32" where
  "wsum (a # b # rest) = (push_bit 8 (ucast a) + ucast b) + wsum rest"
| "wsum [a] = ucast a"
| "wsum [] = 0"

fun pairs_only :: "u8 list \<Rightarrow> u32" where
  "pairs_only (a # b # rest) = (push_bit 8 (ucast a) + ucast b) + pairs_only rest"
| "pairs_only [a] = 0"
| "pairs_only [] = 0"

text \<open>
  The datagram that lines 59-86 hand to \<^verbatim>\<open>conn.Write\<close> in iteration \<open>i\<close>, when
  the request buffer of \<open>size'\<close> payload bytes is allocated.
\<close>

definition echo_request :: "int \<Rightarrow> int \<Rightarrow> u8 list" where
  "echo_request i size' =
     (let data = binary_Write_BigEndian
                   \<lparr>Type = 8, Code = 0, CheckSum = 0, ID = word_of_int i, SeqNum = word_of_int i\<rparr>
                 @ replicate (nat size') 0;
          c = (ucast (NOT (checkSum_fold (wsum data))) :: u16)
      in data[2 := ucast (drop_bit 8 c), 3 := ucast c])"

text \<open>
  The milliseconds iteration \<open>i\<close> adds to \<^verbatim>\<open>totalTs\<close> (none when the write fails,
  see \<open>transmit\<close>), and their exact sum over the iterations \<open>0 \<le> i < count\<close>.
\<close>

definition measured :: "(int \<Rightarrow> response) \<Rightarrow> int \<Rightarrow> int" where
  "measured env i = (if write_err (env i) then 0 else elapsed (env i))"

definition measured_total :: "(int \<Rightarrow> response) \<Rightarrow> int \<Rightarrow> int" where
  "measured_total env count = sum_list (map (measured env) [0 .. count - 1])"

text \<open>
  Transports used as concrete inputs; in all of them the memory for the request
  buffer is there. In \<open>env_write_fails\<close> every \<^verbatim>\<open>conn.Write\<close>
  returns an error after 5 ms. \<open>stray_datagram\<close> is a 32-byte IPv4 packet from
  192.168.1.1 with TTL 64 whose ICMP part is an Echo Request (type 8, not the
  Echo Reply type 0) with identifier 0x1234 and sequence number 0x5678, followed by
  4 bytes. In
  \<open>env_one_timeout\<close> the read of iteration 2 times out after 1000 ms and every other
  iteration reads \<open>stray_datagram\<close> after 5 ms. \<open>env_write_fails_once\<close> is
  \<open>env_one_timeout\<close> with a failing write in iteration 0.
\<close>

definition env_write_fails :: "int \<Rightarrow> response" where
  "env_write_fails i =
     \<lparr>no_memory = False, write_err = True, elapsed = 5, rcv = [], read_err = False\<rparr>"

definition stray_datagram :: "u8 list" where
  "stray_datagram =
     [0x45, 0, 0, 32, 0, 0, 0, 0, 64, 1, 0, 0, 192, 168, 1, 1, 192, 168, 1, 2,
      8, 0, 0, 0, 0x12, 0x34, 0x56, 0x78, 9, 9, 9, 9]"

definition env_one_timeout :: "int \<Rightarrow> response" where
  "env_one_timeout i =
     (if i = 2 then
        \<lparr>no_memory = False, write_err = False, elapsed = 1000, rcv = [], read_err = True\<rparr>
      else
        \<lparr>no_memory = False, write_err = False, elapsed = 5, rcv = stray_datagram,
         read_err = False\<rparr>)"

definition env_write_fails_once :: "int \<Rightarrow> response" where
  "env_write_fails_once i = (if i = 0 then env_write_fails i else env_one_timeout i)"

section \<open>checkSum computes the specified checksum\<close>

lemma be_word_or:
  "push_bit 8 (ucast (a :: u8)) OR (ucast (b :: u8) :: u32) = push_bit 8 (ucast a) + ucast b"
  by (rule disjunctive_add [symmetric]) (auto simp: bit_simps dest: bit_imp_le_length)

lemma ucast_not: "(ucast (NOT (x :: u32)) :: u16) = NOT (ucast x)"
  by (rule bit_word_eqI) (auto simp: bit_simps)

lemma folds_agree: "rfc1071_fold s = checkSum_fold s"
proof (induction s rule: checkSum_fold.induct)
  case (1 s)
  show ?case
  proof (cases "drop_bit 16 s = 0")
    case True
    then show ?thesis
      by (simp add: rfc1071_fold.simps [of s] checkSum_fold.simps [of s])
  next
    case False
    with "1.IH" [OF refl False] show ?thesis
      by (simp add: rfc1071_fold.simps [of s] checkSum_fold.simps [of s] low16_as_cast)
  qed
qed

lemma drop_two:
  "idx + 1 < length data \<Longrightarrow>
   drop idx data = data ! idx # data ! (idx + 1) # drop (idx + 2) data"
  by (simp add: Cons_nth_drop_Suc)

lemma pairs_loop:
  "idx + len = length data \<Longrightarrow>
   checkSum_pairs data len idx s = Inr (len mod 2, idx + (len - len mod 2), s + pairs_only (drop idx data))"
proof (induction data len idx s rule: checkSum_pairs.induct)
  case (1 data len idx sum32)
  show ?case
  proof (cases "len > 1")
    case True
    with "1.prems" have inr: "idx + 1 < length data" by simp
    have next_ok: "idx + 2 + (len - 2) = length data" using True "1.prems" by simp
    define k where "k = len - 2"
    with True have k: "len = k + 2"
      by simp
    have m: "(len - 2) mod 2 = len mod 2"
      by (simp add: k)
    have "k mod 2 \<le> k"
      by simp
    then have e: "idx + 2 + (len - 2 - len mod 2) = idx + (len - len mod 2)"
      by (simp add: k)
    have "checkSum_pairs data len idx sum32 =
            checkSum_pairs data (len - 2) (idx + 2)
              (sum32 + (push_bit 8 (ucast (data ! idx)) + ucast (data ! (idx + 1))))"
      using True inr by (subst checkSum_pairs.simps) simp
    also have "\<dots> =
        Inr ((len - 2) mod 2, idx + 2 + (len - 2 - (len - 2) mod 2),
             sum32 + (push_bit 8 (ucast (data ! idx)) + ucast (data ! (idx + 1)))
               + pairs_only (drop (idx + 2) data))"
      by (rule "1.IH" [OF True inr next_ok])
    also have "\<dots> = Inr (len mod 2, idx + (len - len mod 2), sum32 + pairs_only (drop idx data))"
      unfolding m e by (simp add: drop_two [OF inr] add.assoc)
    finally show ?thesis .
  next
    case False
    then consider "len = 0" | "len = 1" by linarith
    then show ?thesis
    proof cases
      case 1
      with "1.prems" show ?thesis
        by (subst checkSum_pairs.simps) simp
    next
      case 2
      with "1.prems" have "length (drop idx data) = 1" by simp
      then obtain a where "drop idx data = [a]"
        by (cases "drop idx data") auto
      with 2 show ?thesis
        by (subst checkSum_pairs.simps) simp
    qed
  qed
qed


lemma wsum_split:
  "wsum data = pairs_only data + (if odd (length data) then ucast (last data) else 0)"
  by (induction data rule: wsum.induct) (auto simp: add.assoc)

lemma checkSum_eq: "checkSum data = Inr (ucast (NOT (checkSum_fold (wsum data))), None)"
proof (cases "odd (length data)")
  case True
  then have m: "length data mod 2 = 1" by (simp add: odd_iff_mod_2_eq_one)
  from True have ne: "data \<noteq> []" by auto
  then have pos: "0 < length data" by simp
  show ?thesis
    unfolding checkSum_def pairs_loop [of 0 "length data" data 0, simplified]
    using True pos by (simp add: m wsum_split last_conv_nth [OF ne])
next
  case False
  then have m: "length data mod 2 = 0" by (simp add: even_iff_mod_2_eq_zero)
  show ?thesis
    unfolding checkSum_def pairs_loop [of 0 "length data" data 0, simplified]
    using False by (simp add: m wsum_split)
qed

lemma rfc1071_word_Cons: "rfc1071_word (a # b # rest) (Suc k) = rfc1071_word rest k"
  by (simp add: rfc1071_word_def)

lemma rfc1071_sum_Cons:
  "rfc1071_sum (a # b # rest) = (push_bit 8 (ucast a) + ucast b) + rfc1071_sum rest"
proof -
  have mp: "map (rfc1071_word (a # b # rest)) [0 ..< Suc (length rest div 2)]
        = rfc1071_word (a # b # rest) 0 # map (rfc1071_word rest) [0 ..< length rest div 2]"
    by (simp only: upt_conv_Cons zero_less_Suc list.map map_Suc_upt [symmetric] map_map o_def rfc1071_word_Cons)
  have w0: "rfc1071_word (a # b # rest) 0 = push_bit 8 (ucast a) + ucast b"
    by (simp add: rfc1071_word_def be_word_or)
  have la: "odd (length rest) \<Longrightarrow> last (a # b # rest) = last rest"
    by auto
  have "rfc1071_sum (a # b # rest) =
          sum_list (map (rfc1071_word (a # b # rest)) [0 ..< Suc (length rest div 2)])
            + (if odd (length rest) then ucast (last (a # b # rest)) else 0)"
    by (simp add: rfc1071_sum_def del: upt_Suc)
  also have "\<dots> = (push_bit 8 (ucast a) + ucast b)
                 + sum_list (map (rfc1071_word rest) [0 ..< length rest div 2])
                 + (if odd (length rest) then ucast (last rest) else 0)"
    unfolding mp w0 using la by (simp del: upt_Suc)
  finally show ?thesis
    by (simp add: rfc1071_sum_def add.assoc)
qed

lemma rfc1071_sum_eq: "rfc1071_sum data = wsum data"
  by (induction data rule: wsum.induct) (simp_all add: rfc1071_sum_Cons, simp_all add: rfc1071_sum_def)

section \<open>The fold and the embedded checksum\<close>

lemma mod_65535_fold: "(q + r) mod 65535 = (65536 * q + r) mod (65535::nat)"
proof -
  have "65536 * q + r = 65535 * q + (q + r)" by simp
  then show ?thesis by (metis mod_mult_self4)
qed

lemma checkSum_fold_props:
  "unat (checkSum_fold s) < 65536
   \<and> unat (checkSum_fold s) mod 65535 = unat s mod 65535
   \<and> (checkSum_fold s = 0 \<longleftrightarrow> s = 0)"
proof (induction s rule: checkSum_fold.induct)
  case (1 s)
  have hi: "unat (drop_bit 16 s) = unat s div 65536"
    by (simp add: unat_drop_bit_eq drop_bit_eq_div unat_div)
  show ?case
  proof (cases "drop_bit 16 s = 0")
    case True
    with hi have "unat s div 65536 = 0" by simp
    then have "unat s < 65536" by (simp add: div_eq_0_iff)
    with True show ?thesis
      by (simp add: checkSum_fold.simps [of s])
  next
    case False
    let ?s' = "drop_bit 16 s + ucast (ucast s :: u16)"
    have eq: "checkSum_fold s = checkSum_fold ?s'"
      using False by (simp add: checkSum_fold.simps [of s])
    have st: "unat ?s' = unat s div 65536 + unat s mod 65536"
      by (rule checkSum_fold_step)
    have q: "0 < unat s div 65536"
      using False hi by (simp add: unat_eq_0 [symmetric])
    have dec: "unat s = 65536 * (unat s div 65536) + unat s mod 65536"
      by simp
    have m: "unat ?s' mod 65535 = unat s mod 65535"
      unfolding st by (subst (3) dec) (rule mod_65535_fold)
    have nz': "?s' \<noteq> 0"
      using q st by (simp add: unat_eq_0 [symmetric])
    have nz: "s \<noteq> 0"
      using False by auto
    from "1.IH" [OF refl False] show ?thesis
      unfolding eq using m nz nz' by simp
  qed
qed

lemma complement_arith:
  fixes w f :: nat
  assumes w: "w < 2 ^ 32" and f: "f < 65536" and m: "f mod 65535 = w mod 65535"
    and z: "f = 0 \<longleftrightarrow> w = 0"
  shows "w + (65535 - f) < 2 ^ 32 \<and> (w + (65535 - f)) mod 65535 = 0 \<and> 0 < w + (65535 - f)"
proof (cases "w = 0")
  case True
  with z show ?thesis by simp
next
  case False
  with z have fpos: "0 < f" by simp
  define k where "k = w div 65535"
  define r where "r = w mod 65535"
  have wk: "w = 65535 * k + r" and r: "r < 65535"
    by (simp_all add: k_def r_def)
  show ?thesis
  proof (cases "f = 65535")
    case True
    with m have "r = 0" by (simp add: r_def)
    with wk w True False show ?thesis by simp
  next
    case False
    with f have "f < 65535" by simp
    with m have fr: "f = r" by (simp add: r_def)
    have s: "w + (65535 - f) = 65535 * (k + 1)"
      using wk fr r by simp
    have "65535 * k + 1 \<le> w" using wk fr fpos by simp
    with w have "65535 * k < 65535 * 65537" by simp
    then have "k < 65537" by simp
    then have "65535 * (k + 1) \<le> 65535 * 65537" by simp
    then have "65535 * (k + 1) < (2::nat) ^ 32" by simp
    then show ?thesis unfolding s by simp
  qed
qed

lemma split_be16:
  "push_bit 8 (ucast (ucast (drop_bit 8 (c :: u16)) :: u8)) + ucast (ucast c :: u8) = (ucast c :: u32)"
  unfolding be_word_or [symmetric]
  by (rule bit_word_eqI) (auto simp: bit_simps dest: bit_imp_le_length)

lemma unat_not16: "unat (NOT (x :: u16)) = 65535 - unat x"
proof -
  have "NOT x = (- 1) - x"
    by (simp add: not_eq_complement)
  moreover have "unat ((- 1) - x) = unat (- 1 :: u16) - unat x"
    by (rule unat_sub) simp
  moreover have "unat (- 1 :: u16) = 65535"
    by (simp add: unsigned_minus_1_eq_mask mask_eq_exp_minus_1)
  ultimately show ?thesis
    by simp
qed

lemma ucast_fold16: "unat (ucast (checkSum_fold s) :: u16) = unat (checkSum_fold s)"
proof -
  have "unat (checkSum_fold s) < 65536"
    using checkSum_fold_props [of s] by simp
  then show ?thesis
    by (simp add: unsigned_ucast_eq take_bit_eq_mod)
qed

lemma fold_of_embedded:
  fixes W :: u32
  defines "c \<equiv> (ucast (NOT (checkSum_fold W)) :: u16)"
  shows "checkSum_fold (W + ucast c) = 0xFFFF"
proof -
  let ?f = "unat (checkSum_fold W)"
  have p: "?f < 65536" "?f mod 65535 = unat W mod 65535" "?f = 0 \<longleftrightarrow> unat W = 0"
    using checkSum_fold_props [of W] by (simp_all add: unat_eq_0)
  have w: "unat W < 2 ^ 32"
    using unsigned_less [of W, where 'a = nat] by simp
  have c: "unat c = 65535 - ?f"
    by (simp add: c_def ucast_not unat_not16 ucast_fold16)
  have cu: "unat (ucast c :: u32) = 65535 - ?f"
    using c by (simp add: unsigned_ucast_eq take_bit_eq_mod)
  from complement_arith [OF w p(1) p(2) p(3)]
  have a: "unat W + (65535 - ?f) < 2 ^ 32" "(unat W + (65535 - ?f)) mod 65535 = 0"
    "0 < unat W + (65535 - ?f)"
    by simp_all
  have s: "unat (W + ucast c) = unat W + (65535 - ?f)"
    using a(1) by (simp add: unat_word_ariths cu)
  let ?g = "unat (checkSum_fold (W + ucast c))"
  have "0 < unat (W + ucast c)"
    unfolding s by (rule a(3))
  then have nz: "W + ucast c \<noteq> 0"
    by auto
  have g: "?g < 65536" "?g mod 65535 = 0" "?g \<noteq> 0"
    using checkSum_fold_props [of "W + ucast c"] a(2) s nz by (simp_all add: unat_eq_0)
  have "?g = 65535"
  proof (rule ccontr)
    assume "?g \<noteq> 65535"
    with g(1) have "?g < 65535" by simp
    then have "?g mod 65535 = ?g" by simp
    with g(2) g(3) show False by simp
  qed
  then show ?thesis
    by (simp add: word_unat_eq_iff)
qed

lemma wsum_update:
  "wsum (a # b # c # d # rest) = wsum (a # b # 0 # 0 # rest) + (push_bit 8 (ucast c) + ucast d)"
  by simp

lemma four_bytes:
  assumes "4 \<le> length (data :: u8 list)"
  obtains a b x y rest where "data = a # b # x # y # rest"
proof -
  from assms have "\<exists>a b x y rest. data = a # b # x # y # rest"
    by (auto simp: eval_nat_numeral Suc_le_length_iff)
  then show ?thesis
    using that by blast
qed

section \<open>The loop of ping\<close>

lemma length_read_buf: "length (read_buf bytes) = 65536"
  by (simp add: read_buf_def)

lemma read_buf_nth:
  "k < 65536 \<Longrightarrow> read_buf bytes ! k = (if k < length bytes then bytes ! k else 0)"
  by (simp add: read_buf_def nth_append)

lemma length_echo_request: "length (echo_request i size') = 8 + nat size'"
  by (simp add: echo_request_def binary_Write_BigEndian_def be16_def Let_def)

lemma record_time_fields:
  "totalTs (record_time t st) = wrap64 (totalTs st + t)"
  "minTs (record_time t st) = min (minTs st) t"
  "maxTs (record_time t st) = max (maxTs st) t"
  "sendCount (record_time t st) = sendCount st"
  "successCount (record_time t st) = successCount st"
  "failCount (record_time t st) = failCount st"
  "wire (record_time t st) = wire st"
  "printed (record_time t st) = printed st"
  by (simp_all add: record_time_def Let_def)

lemma transmit_fields:
  "sendCount (transmit r d st) = sendCount st"
  "wire (transmit r d st) = wire st @ [d]"
  "successCount (transmit r d st) = successCount st + (if write_err r \<or> read_err r then 0 else 1)"
  "failCount (transmit r d st) = failCount st + (if write_err r \<or> read_err r then 1 else 0)"
  "totalTs (transmit r d st) = (if write_err r then totalTs st else wrap64 (totalTs st + elapsed r))"
  "minTs (transmit r d st) = (if write_err r then minTs st else min (minTs st) (elapsed r))"
  "maxTs (transmit r d st) = (if write_err r then maxTs st else max (maxTs st) (elapsed r))"
  by (simp_all add: transmit_def Let_def record_time_fields)

lemma transmit_printed:
  "printed (transmit r d st) = printed st @
     [if write_err r then RequestFailed
      else if read_err r then RequestTimedOut
      else Reply (read_buf (rcv r) ! 12) (read_buf (rcv r) ! 13) (read_buf (rcv r) ! 14)
             (read_buf (rcv r) ! 15) (read_n (rcv r) - 28) (elapsed r) (read_buf (rcv r) ! 8)]"
  by (simp add: transmit_def Let_def record_time_fields)

lemma attempt_cases:
  "attempt env size' i st =
     (if size' < 0 \<or> maxAlloc < size' then Inl MakeSliceLen
      else if maxAlloc < 8 + size' then Inl BufferTooLarge
      else if no_memory (env i) then Inl OutOfMemory
      else Inr (transmit (env i) (echo_request i size') (st\<lparr>sendCount := sendCount st + 1\<rparr>)))"
  by (simp add: attempt_def request_buffer_def checkSum_eq echo_request_def Let_def)

lemma attempt_eq:
  assumes "0 \<le> size'" and "8 + size' \<le> maxAlloc" and "\<not> no_memory (env i)"
  shows "attempt env size' i st =
           Inr (transmit (env i) (echo_request i size') (st\<lparr>sendCount := sendCount st + 1\<rparr>))"
  using assms by (simp add: attempt_cases)

lemma attempt_Inr:
  assumes "attempt env size' i st = Inr s"
  shows "0 \<le> size'" and "8 + size' \<le> maxAlloc" and "\<not> no_memory (env i)"
    and "s = transmit (env i) (echo_request i size') (st\<lparr>sendCount := sendCount st + 1\<rparr>)"
  using assms by (simp_all add: attempt_cases split: if_splits)

lemma attempt_size_out_of_range:
  "size' < 0 \<or> maxAlloc < size' \<Longrightarrow> attempt env size' i st = Inl MakeSliceLen"
  by (simp add: attempt_cases)

lemma ping_loop_step:
  "i < count \<Longrightarrow> 0 \<le> size' \<Longrightarrow> 8 + size' \<le> maxAlloc \<Longrightarrow> \<not> no_memory (env i) \<Longrightarrow>
   ping_loop env size' count i st =
     ping_loop env size' count (i + 1)
       (transmit (env i) (echo_request i size') (st\<lparr>sendCount := sendCount st + 1\<rparr>))"
  by (subst ping_loop.simps) (simp add: attempt_eq)

lemma ping_loop_stop: "\<not> i < count \<Longrightarrow> ping_loop env size' count i st = Inr st"
  by (subst ping_loop.simps) simp

lemma ping_loop_Inr:
  assumes "i < count" and "ping_loop env size' count i st = Inr st'"
  shows "0 \<le> size'" and "8 + size' \<le> maxAlloc" and "\<not> no_memory (env i)"
    and "ping_loop env size' count (i + 1)
           (transmit (env i) (echo_request i size') (st\<lparr>sendCount := sendCount st + 1\<rparr>)) = Inr st'"
proof -
  from assms obtain s where a: "attempt env size' i st = Inr s"
    and r: "ping_loop env size' count (i + 1) s = Inr st'"
    by (subst (asm) ping_loop.simps) (auto split: sum.splits)
  from attempt_Inr [OF a] r
  show "0 \<le> size'" and "8 + size' \<le> maxAlloc" and "\<not> no_memory (env i)"
    and "ping_loop env size' count (i + 1)
           (transmit (env i) (echo_request i size') (st\<lparr>sendCount := sendCount st + 1\<rparr>)) = Inr st'"
    by simp_all
qed

lemma ping_loop_total:
  assumes "0 \<le> size'" and "8 + size' \<le> maxAlloc"
    and "\<forall>j. i \<le> j \<and> j < count \<longrightarrow> \<not> no_memory (env j)"
  shows "\<exists>st'. ping_loop env size' count i st = Inr st'"
  using assms
proof (induction env size' count i st rule: ping_loop.induct)
  case (1 env size' count i st)
  show ?case
  proof (cases "i < count")
    case True
    have nm: "\<not> no_memory (env i)"
      using "1.prems"(3) True by simp
    have later: "\<forall>j. i + 1 \<le> j \<and> j < count \<longrightarrow> \<not> no_memory (env j)"
      using "1.prems"(3) by simp
    from "1.IH" [OF True attempt_eq [where env = env and i = i, OF "1.prems"(1,2) nm] "1.prems"(1,2) later] show ?thesis
      by (simp add: ping_loop_step [where env = env, OF True "1.prems"(1,2) nm])
  next
    case False
    then show ?thesis by (simp add: ping_loop_stop)
  qed
qed

lemma ping_loop_counts:
  "ping_loop env size' count i st = Inr st' \<Longrightarrow>
   sendCount st' - (successCount st' + failCount st') = sendCount st - (successCount st + failCount st)
   \<and> sendCount st' = sendCount st + max 0 (count - i)"
proof (induction env size' count i st rule: ping_loop.induct)
  case (1 env size' count i st)
  show ?case
  proof (cases "i < count")
    case True
    note r = ping_loop_Inr [OF True "1.prems"]
    from "1.IH" [OF True attempt_eq [where env = env and i = i, OF r(1,2,3)] r(4)] True
    show ?thesis
      by (cases "write_err (env i) \<or> read_err (env i)") (simp_all add: transmit_fields)
  next
    case False
    with "1.prems" show ?thesis by (simp add: ping_loop_stop)
  qed
qed

lemma wrap64_add: "wrap64 (wrap64 a + b) = wrap64 (a + b)"
proof -
  have "(wrap64 a + b + 2 ^ 63) mod 2 ^ 64 = ((a + 2 ^ 63) mod 2 ^ 64 + b) mod 2 ^ 64"
    by (simp add: wrap64_def algebra_simps)
  also have "\<dots> = (a + 2 ^ 63 + b) mod 2 ^ 64"
    by (rule mod_add_left_eq)
  finally show ?thesis
    by (simp add: wrap64_def algebra_simps)
qed

lemma wrap64_id: "- (2 ^ 63) \<le> x \<Longrightarrow> x < 2 ^ 63 \<Longrightarrow> wrap64 x = x"
  by (simp add: wrap64_def)

lemma ping_loop_upper:
  assumes "ping_loop env size' count i st = Inr st'"
    and "0 \<le> sendCount st"
    and "0 \<le> maxTs st"
    and "T \<le> sendCount st * maxTs st"
    and "totalTs st = wrap64 T"
  shows "T + sum_list (map (measured env) [i .. count - 1]) \<le> sendCount st' * maxTs st'
       \<and> totalTs st' = wrap64 (T + sum_list (map (measured env) [i .. count - 1]))"
  using assms
proof (induction env size' count i st arbitrary: T rule: ping_loop.induct)
  case (1 env size' count i st)
  show ?case
  proof (cases "i < count")
    case True
    let ?t = "measured env i"
    let ?s = "transmit (env i) (echo_request i size') (st\<lparr>sendCount := sendCount st + 1\<rparr>)"
    note r = ping_loop_Inr [OF True "1.prems"(1)]
    have f: "sendCount ?s = sendCount st + 1" "maxTs ?s = max (maxTs st) ?t"
      "totalTs ?s = wrap64 (T + ?t)"
      using "1.prems"(3,5) by (simp_all add: transmit_fields wrap64_add measured_def)
    have k: "0 \<le> sendCount ?s" and mx: "0 \<le> maxTs ?s"
      using "1.prems"(2,3) f by simp_all
    have "sendCount st * maxTs st \<le> sendCount st * max (maxTs st) ?t"
      using "1.prems"(2) by (intro mult_left_mono) simp_all
    then have hi: "T + ?t \<le> sendCount ?s * maxTs ?s"
      using "1.prems"(4) unfolding f by (simp add: algebra_simps)
    have up: "[i .. count - 1] = i # [i + 1 .. count - 1]"
      using True by (simp add: upto_rec1)
    from "1.IH" [OF True attempt_eq [where env = env and i = i, OF r(1,2,3)] r(4) k mx hi f(3)]
    show ?thesis
      by (simp add: up add.assoc)
  next
    case False
    then have "[i .. count - 1] = []" by simp
    with False "1.prems" show ?thesis
      by (simp add: ping_loop_stop)
  qed
qed

lemma ping_loop_lower:
  assumes "\<forall>j. i \<le> j \<and> j < count \<longrightarrow> \<not> write_err (env j)"
    and "ping_loop env size' count i st = Inr st'"
    and "0 \<le> sendCount st"
    and "sendCount st * minTs st \<le> T"
  shows "sendCount st' * minTs st' \<le> T + sum_list (map (measured env) [i .. count - 1])"
  using assms
proof (induction env size' count i st arbitrary: T rule: ping_loop.induct)
  case (1 env size' count i st)
  show ?case
  proof (cases "i < count")
    case True
    let ?t = "measured env i"
    let ?s = "transmit (env i) (echo_request i size') (st\<lparr>sendCount := sendCount st + 1\<rparr>)"
    note r = ping_loop_Inr [OF True "1.prems"(2)]
    have nw: "\<not> write_err (env i)"
      using "1.prems"(1) True by simp
    have later: "\<forall>j. i + 1 \<le> j \<and> j < count \<longrightarrow> \<not> write_err (env j)"
      using "1.prems"(1) by simp
    have f: "sendCount ?s = sendCount st + 1" "minTs ?s = min (minTs st) ?t"
      using nw by (simp_all add: transmit_fields measured_def)
    have k: "0 \<le> sendCount ?s"
      using "1.prems"(3) f(1) by simp
    have "sendCount st * min (minTs st) ?t \<le> sendCount st * minTs st"
      using "1.prems"(3) by (intro mult_left_mono) simp_all
    then have lo: "sendCount ?s * minTs ?s \<le> T + ?t"
      using "1.prems"(4) unfolding f by (simp add: algebra_simps)
    have up: "[i .. count - 1] = i # [i + 1 .. count - 1]"
      using True by (simp add: upto_rec1)
    from "1.IH" [OF True attempt_eq [where env = env and i = i, OF r(1,2,3)] later r(4) k lo]
    show ?thesis
      by (simp add: up add.assoc)
  next
    case False
    then have "[i .. count - 1] = []" by simp
    with False "1.prems" show ?thesis
      by (simp add: ping_loop_stop)
  qed
qed

lemma ping_loop_min_le_max:
  assumes "ping_loop env size' count i st = Inr st'"
    and "minTs st \<le> maxTs st \<or> (\<exists>j. i \<le> j \<and> j < count \<and> \<not> write_err (env j))"
  shows "minTs st' \<le> maxTs st'"
  using assms
proof (induction env size' count i st rule: ping_loop.induct)
  case (1 env size' count i st)
  show ?case
  proof (cases "i < count")
    case True
    let ?s = "transmit (env i) (echo_request i size') (st\<lparr>sendCount := sendCount st + 1\<rparr>)"
    note r = ping_loop_Inr [OF True "1.prems"(1)]
    have "minTs ?s \<le> maxTs ?s \<or> (\<exists>j. i + 1 \<le> j \<and> j < count \<and> \<not> write_err (env j))"
    proof (cases "write_err (env i)")
      case False
      then have "minTs ?s \<le> maxTs ?s"
        by (simp add: transmit_fields)
      then show ?thesis ..
    next
      case we: True
      from "1.prems"(2) show ?thesis
      proof
        assume "minTs st \<le> maxTs st"
        with we have "minTs ?s \<le> maxTs ?s"
          by (simp add: transmit_fields)
        then show ?thesis ..
      next
        assume "\<exists>j. i \<le> j \<and> j < count \<and> \<not> write_err (env j)"
        then obtain j where j: "i \<le> j" "j < count" "\<not> write_err (env j)"
          by blast
        with we have "j \<noteq> i"
          by auto
        with j have "i + 1 \<le> j \<and> j < count \<and> \<not> write_err (env j)"
          by simp
        then show ?thesis
          by blast
      qed
    qed
    from "1.IH" [OF True attempt_eq [where env = env and i = i, OF r(1,2,3)] r(4) this] show ?thesis .
  next
    case False
    with "1.prems" show ?thesis
      by (auto simp: ping_loop_stop)
  qed
qed

lemma go_div_between:
  assumes n: "0 < n" and lo: "n * m \<le> S" and hi: "S \<le> n * M"
    and r1: "- (2 ^ 63) \<le> S" and r2: "S < 2 ^ 63"
  shows "m \<le> go_div S n \<and> go_div S n \<le> M"
proof (cases "0 \<le> S")
  case True
  have q: "sgn S * sgn n * (\<bar>S\<bar> div \<bar>n\<bar>) = S div n"
    using True n by (cases "S = 0") simp_all
  have "0 \<le> S div n" using True n by (simp add: pos_imp_zdiv_nonneg_iff)
  then have b1: "- (2 ^ 63) \<le> S div n" by simp
  have "S div n \<le> S" using zdiv_mono2 [of S 1 n] True n by simp
  with r2 have b2: "S div n < 2 ^ 63" by simp
  have g: "go_div S n = S div n"
    unfolding go_div_def q using b1 b2 by (rule wrap64_id)
  have "(n * m) div n \<le> S div n" using lo n by (rule zdiv_mono1)
  moreover have "S div n \<le> (n * M) div n" using hi n by (rule zdiv_mono1)
  ultimately show ?thesis using n by (simp add: g)
next
  case False
  then have neg: "S < 0" by simp
  have q: "sgn S * sgn n * (\<bar>S\<bar> div \<bar>n\<bar>) = - ((- S) div n)"
    using neg n by simp
  have "0 \<le> (- S) div n" using neg n by (simp add: pos_imp_zdiv_nonneg_iff)
  then have b2: "- ((- S) div n) < 2 ^ 63" by simp
  have "(- S) div n \<le> - S" using zdiv_mono2 [of "- S" 1 n] neg n by simp
  with r1 have b1: "- (2 ^ 63) \<le> - ((- S) div n)" by simp
  have g: "go_div S n = - ((- S) div n)"
    unfolding go_div_def q using b1 b2 by (rule wrap64_id)
  have cancel: "(n * x) div n = x" for x
    using n by simp
  have e1: "(n * (- m)) div n = - m" and e2: "(n * (- M)) div n = - M"
    by (rule cancel)+
  have "- S \<le> n * (- m)" using lo by simp
  then have "(- S) div n \<le> (n * (- m)) div n" using n by (rule zdiv_mono1)
  then have u: "(- S) div n \<le> - m" by (simp only: e1)
  have "n * (- M) \<le> - S" using hi by simp
  then have "(n * (- M)) div n \<le> (- S) div n" using n by (rule zdiv_mono1)
  then have l: "- M \<le> (- S) div n" by (simp only: e2)
  from u l show ?thesis unfolding g by linarith
qed

lemma init_invariant:
  "0 \<le> sendCount init_state" "0 \<le> maxTs init_state"
  "(0::int) \<le> sendCount init_state * maxTs init_state"
  "sendCount init_state * minTs init_state \<le> 0"
  "totalTs init_state = wrap64 0"
  by (simp_all add: init_state_def wrap64_def)

text \<open>The datagrams of the first four iterations with the default size 32.\<close>

lemma echo_request_0: "echo_request 0 32 = [8, 0, 0xF7, 0xFF, 0, 0, 0, 0] @ replicate 32 0"
  by code_simp

lemma echo_request_1: "echo_request 1 32 = [8, 0, 0xF7, 0xFD, 0, 1, 0, 1] @ replicate 32 0"
  by code_simp

lemma echo_request_2: "echo_request 2 32 = [8, 0, 0xF7, 0xFB, 0, 2, 0, 2] @ replicate 32 0"
  by code_simp

lemma echo_request_3: "echo_request 3 32 = [8, 0, 0xF7, 0xF9, 0, 3, 0, 3] @ replicate 32 0"
  by code_simp

section \<open>Completed attempts and completed runs\<close>

lemma attempt_returns_iff:
  "(\<exists>st'. attempt env size' i st = Inr st')
     \<longleftrightarrow> (0 \<le> size' \<and> 8 + size' \<le> maxAlloc \<and> \<not> no_memory (env i))"
  by (auto simp: attempt_cases)

lemma attempt_layout:
  assumes "attempt env size' i st = Inr st'"
  shows "\<exists>d c. wire st' = wire st @ [d]
           \<and> length d = 8 + nat size' \<and> d ! 0 = 8 \<and> d ! 1 = 0
           \<and> d ! 4 = ucast (drop_bit 8 (word_of_int i :: u16)) \<and> d ! 5 = ucast (word_of_int i :: u16)
           \<and> d ! 6 = ucast (drop_bit 8 (word_of_int i :: u16)) \<and> d ! 7 = ucast (word_of_int i :: u16)
           \<and> checkSum (d[2 := 0, 3 := 0]) = Inr (c, None)
           \<and> d ! 2 = ucast (drop_bit 8 c) \<and> d ! 3 = ucast c"
proof -
  let ?hdr = "binary_Write_BigEndian
                \<lparr>Type = 8, Code = 0, CheckSum = 0, ID = word_of_int i, SeqNum = word_of_int i\<rparr>"
  let ?data = "?hdr @ replicate (nat size') 0"
  let ?c = "ucast (NOT (checkSum_fold (wsum ?data))) :: u16"
  let ?d = "echo_request i size'"
  have d: "?d = ?data[2 := ucast (drop_bit 8 ?c), 3 := ucast ?c]"
    by (simp add: echo_request_def Let_def)
  have hdr: "?hdr = [8, 0, 0, 0, ucast (drop_bit 8 (word_of_int i :: u16)), ucast (word_of_int i :: u16),
                     ucast (drop_bit 8 (word_of_int i :: u16)), ucast (word_of_int i :: u16)]"
    by (simp add: binary_Write_BigEndian_def be16_def)
  have z: "?d[2 := 0, 3 := 0] = ?data"
    unfolding d hdr by simp
  have cs: "checkSum (?d[2 := 0, 3 := 0]) = Inr (?c, None)"
    unfolding z by (rule checkSum_eq)
  have bytes: "?d ! 0 = 8" "?d ! 1 = 0" "?d ! 2 = ucast (drop_bit 8 ?c)" "?d ! 3 = ucast ?c"
    "?d ! 4 = ucast (drop_bit 8 (word_of_int i :: u16))" "?d ! 5 = ucast (word_of_int i :: u16)"
    "?d ! 6 = ucast (drop_bit 8 (word_of_int i :: u16))" "?d ! 7 = ucast (word_of_int i :: u16)"
    unfolding d hdr by simp_all
  have "wire st' = wire st @ [?d]"
    using attempt_Inr(4) [OF assms] by (simp add: transmit_fields)
  then show ?thesis
    using length_echo_request [of i size'] cs bytes by blast
qed

lemma attempt_classified:
  assumes "attempt env size' i st = Inr st'"
  shows "sendCount st' = sendCount st + 1"
    and "wire st' = wire st @ [echo_request i size']"
    and "failCount st' = failCount st + (if write_err (env i) \<or> read_err (env i) then 1 else 0)"
    and "successCount st' = successCount st + (if write_err (env i) \<or> read_err (env i) then 0 else 1)"
    and "totalTs st' = (if write_err (env i) then totalTs st else wrap64 (totalTs st + elapsed (env i)))"
    and "minTs st' = (if write_err (env i) then minTs st else min (minTs st) (elapsed (env i)))"
    and "maxTs st' = (if write_err (env i) then maxTs st else max (maxTs st) (elapsed (env i)))"
  using attempt_Inr(4) [OF assms] by (simp_all add: transmit_fields)

lemma attempt_reply_line:
  assumes "attempt env size' i st = Inr st'" and "\<not> write_err (env i)" and "\<not> read_err (env i)"
  shows "printed st' = printed st @
           [Reply (read_buf (rcv (env i)) ! 12) (read_buf (rcv (env i)) ! 13)
                  (read_buf (rcv (env i)) ! 14) (read_buf (rcv (env i)) ! 15)
                  (read_n (rcv (env i)) - 28) (elapsed (env i))
                  (read_buf (rcv (env i)) ! 8)]"
  using attempt_Inr(4) [OF assms(1)] assms(2,3) by (simp add: transmit_printed)

lemma ping_Inr:
  assumes "ping dial_ok env size' count = Inr (st, s)"
  shows "ping_loop env size' count 0 init_state = Inr st"
    and "sendCount st \<noteq> 0"
    and "s = \<lparr>sent = sendCount st, received = successCount st, lost = failCount st,
             loss = real_of_int (failCount st) / real_of_int (sendCount st),
             shortest = minTs st, longest = maxTs st,
             average = go_div (totalTs st) (sendCount st)\<rparr>"
  using assms by (auto simp: ping_def ping_summary_def split: if_splits sum.splits)

lemma ping_returns:
  assumes "0 < count" and "0 \<le> size'" and "8 + size' \<le> maxAlloc"
    and "\<forall>i. 0 \<le> i \<and> i < count \<longrightarrow> \<not> no_memory (env i)"
  shows "\<exists>st s. ping True env size' count = Inr (st, s)"
proof -
  from ping_loop_total [OF assms(2,3,4)] obtain st
    where run: "ping_loop env size' count 0 init_state = Inr st"
    by blast
  have "sendCount st = count"
    using ping_loop_counts [OF run] assms(1) by (simp add: init_state_def)
  with run assms(1) show ?thesis
    by (simp add: ping_def ping_summary_def)
qed

lemma completed_run_latencies:
  assumes p: "ping True env size' count = Inr (st, s)"
    and lo: "- (2 ^ 63) \<le> measured_total env count" and hi: "measured_total env count < 2 ^ 63"
  shows "0 < sent s"
    and "average s = go_div (totalTs st) (sent s)"
    and "average s \<le> longest s"
    and "(\<exists>i. 0 \<le> i \<and> i < count \<and> \<not> write_err (env i)) \<Longrightarrow> shortest s \<le> longest s"
    and "(\<forall>i. 0 \<le> i \<and> i < count \<longrightarrow> \<not> write_err (env i)) \<Longrightarrow> shortest s \<le> average s"
proof -
  note r = ping_Inr [OF p]
  let ?S = "measured_total env count"
  have n: "sendCount st = max 0 count"
    using ping_loop_counts [OF r(1)] by (simp add: init_state_def)
  with r(2) have pos: "0 < sendCount st"
    by simp
  have up: "?S \<le> sendCount st * maxTs st" and tot: "totalTs st = ?S"
    using ping_loop_upper [OF r(1) init_invariant(1,2,3,5)] lo hi
    by (simp_all add: measured_total_def wrap64_id)
  have "1 * \<bar>?S\<bar> \<le> sendCount st * \<bar>?S\<bar>"
    using pos by (intro mult_right_mono) simp_all
  then have triv: "sendCount st * (- \<bar>?S\<bar>) \<le> ?S"
    by simp
  show "0 < sent s"
    using pos by (simp add: r(3))
  show "average s = go_div (totalTs st) (sent s)"
    by (simp add: r(3))
  show "average s \<le> longest s"
    using go_div_between [OF pos triv up lo hi] by (simp add: r(3) tot)
  show "shortest s \<le> longest s" if "\<exists>i. 0 \<le> i \<and> i < count \<and> \<not> write_err (env i)"
    using ping_loop_min_le_max [OF r(1)] that by (simp add: r(3))
  show "shortest s \<le> average s" if nw: "\<forall>i. 0 \<le> i \<and> i < count \<longrightarrow> \<not> write_err (env i)"
  proof -
    have "sendCount st * minTs st \<le> ?S"
      using ping_loop_lower [OF nw r(1) init_invariant(1,4)] by (simp add: measured_total_def)
    from go_div_between [OF pos this up lo hi] show ?thesis
      by (simp add: r(3) tot)
  qed
qed

section \<open>The claims\<close>

text \<open>
  C1. For every byte sequence, \<^verbatim>\<open>checkSum\<close> returns (with a nil error) the checksum
  as section 4.4 of the specification words it: the big-endian 16-bit words summed
  into a 32-bit accumulator, a final unpaired byte added unshifted, the sum folded
  until its high 16 bits are zero, and the 16-bit result complemented. The empty
  sequence gives 0xFFFF, the bytes 00 01 give 0xFFFE, and the bytes FF FF 01 give
  0xFFFE.
\<close>

theorem checkSum_is_rfc1071:
  "checkSum data = Inr (rfc1071_checksum data, None)
   \<and> checkSum [] = Inr (0xFFFF, None)
   \<and> checkSum [0x00, 0x01] = Inr (0xFFFE, None)
   \<and> checkSum [0xFF, 0xFF, 0x01] = Inr (0xFFFE, None)"
proof -
  have general: "checkSum data = Inr (rfc1071_checksum data, None)"
    by (simp add: checkSum_eq rfc1071_checksum_def folds_agree rfc1071_sum_eq ucast_not)
  have empty: "checkSum [] = Inr (0xFFFF, None)"
    by code_simp
  have even: "checkSum [0x00, 0x01] = Inr (0xFFFE, None)"
    by code_simp
  have odd: "checkSum [0xFF, 0xFF, 0x01] = Inr (0xFFFE, None)"
    by code_simp
  from general empty even odd show ?thesis
    by (intro conjI)
qed

text \<open>
  C2, as stated, fails for a size \<^verbatim>\<open>make\<close> cannot allocate: with size \<open>2 ^ 62\<close>
  (the flag \<^verbatim>\<open>-l 4611686018427387904\<close>) the first iteration panics at line 74 and no
  datagram is built.
\<close>

theorem huge_size_builds_no_datagram:
  "attempt env_one_timeout (2 ^ 62) 0 init_state = Inl MakeSliceLen"
  by (simp add: attempt_cases maxAlloc_def)

text \<open>
  C2, amended. An iteration builds its datagram exactly when the size is at least
  0, the \<open>8 + size\<close> bytes of the buffer are within the limit of \<^verbatim>\<open>make\<close>, and the
  memory is there. For every loop index \<open>i\<close> and
  every such size \<open>s\<close>, the datagram handed to \<^verbatim>\<open>conn.Write\<close> has length \<open>8 + s\<close>,
  byte 0 is 8, byte 1 is 0, bytes 4-5 and bytes 6-7 are both \<^verbatim>\<open>uint16(i)\<close> in
  big-endian order, and bytes 2-3 are the checksum of the whole buffer with bytes 2-3
  zero, high byte at offset 2 and low byte at offset 3.
\<close>

theorem echo_request_layout:
  "(attempt env size' i st = Inr st' \<longrightarrow>
      (\<exists>d c. wire st' = wire st @ [d]
         \<and> length d = 8 + nat size' \<and> d ! 0 = 8 \<and> d ! 1 = 0
         \<and> d ! 4 = ucast (drop_bit 8 (word_of_int i :: u16)) \<and> d ! 5 = ucast (word_of_int i :: u16)
         \<and> d ! 6 = ucast (drop_bit 8 (word_of_int i :: u16)) \<and> d ! 7 = ucast (word_of_int i :: u16)
         \<and> checkSum (d[2 := 0, 3 := 0]) = Inr (c, None)
         \<and> d ! 2 = ucast (drop_bit 8 c) \<and> d ! 3 = ucast c))
   \<and> ((\<exists>st'. attempt env size' i st = Inr st')
        \<longleftrightarrow> (0 \<le> size' \<and> 8 + size' \<le> maxAlloc \<and> \<not> no_memory (env i)))"
proof
  show "attempt env size' i st = Inr st' \<longrightarrow>
      (\<exists>d c. wire st' = wire st @ [d]
         \<and> length d = 8 + nat size' \<and> d ! 0 = 8 \<and> d ! 1 = 0
         \<and> d ! 4 = ucast (drop_bit 8 (word_of_int i :: u16)) \<and> d ! 5 = ucast (word_of_int i :: u16)
         \<and> d ! 6 = ucast (drop_bit 8 (word_of_int i :: u16)) \<and> d ! 7 = ucast (word_of_int i :: u16)
         \<and> checkSum (d[2 := 0, 3 := 0]) = Inr (c, None)
         \<and> d ! 2 = ucast (drop_bit 8 c) \<and> d ! 3 = ucast c)"
    by (rule impI) (rule attempt_layout)
next
  show "(\<exists>st'. attempt env size' i st = Inr st')
        \<longleftrightarrow> (0 \<le> size' \<and> 8 + size' \<le> maxAlloc \<and> \<not> no_memory (env i))"
    by (rule attempt_returns_iff)
qed

text \<open>
  At index 258 = 0x0102 and size 32: identifier and sequence number are the bytes
  01 02.
\<close>

theorem echo_request_layout_witness:
  "\<exists>st' d c. attempt env_one_timeout 32 258 init_state = Inr st' \<and> wire st' = [d]
          \<and> length d = 40 \<and> d ! 0 = 8 \<and> d ! 1 = 0
          \<and> d ! 4 = 1 \<and> d ! 5 = 2 \<and> d ! 6 = 1 \<and> d ! 7 = 2
          \<and> checkSum (d[2 := 0, 3 := 0]) = Inr (c, None)
          \<and> d ! 2 = ucast (drop_bit 8 c) \<and> d ! 3 = ucast c"
proof -
  have low: "(258 :: u8) = 2"
    by simp
  have "\<exists>st'. attempt env_one_timeout 32 258 init_state = Inr st'"
    using echo_request_layout [of env_one_timeout 32 258 init_state, THEN conjunct2]
    by (simp add: env_one_timeout_def maxAlloc_def)
  then obtain st' where a: "attempt env_one_timeout 32 258 init_state = Inr st'"
    by blast
  from echo_request_layout [of env_one_timeout 32 258 init_state st', THEN conjunct1] a
  show ?thesis
    by (simp add: init_state_def low)
qed

text \<open>
  C3. The claim: the summary reports \<open>failed / sent * 100\<close>. The code passes
  \<^verbatim>\<open>float64(failCount)/float64(sendCount)\<close> to the verb \<^verbatim>\<open>%.2f%%\<close> without the
  factor 100: with 1 failure in 4 attempts the value is 1/4, not 25.
\<close>

theorem loss_is_not_scaled_to_percent:
  "ping True env_one_timeout 32 4 =
     Inr (\<lparr>sendCount = 4, successCount = 3, failCount = 1,
           minTs = 5, maxTs = 1000, totalTs = 1015,
           wire = [[8, 0, 0xF7, 0xFF, 0, 0, 0, 0] @ replicate 32 0,
                   [8, 0, 0xF7, 0xFD, 0, 1, 0, 1] @ replicate 32 0,
                   [8, 0, 0xF7, 0xFB, 0, 2, 0, 2] @ replicate 32 0,
                   [8, 0, 0xF7, 0xF9, 0, 3, 0, 3] @ replicate 32 0],
           printed = [Reply 192 168 1 1 4 5 64, Reply 192 168 1 1 4 5 64,
                      RequestTimedOut, Reply 192 168 1 1 4 5 64]\<rparr>,
          \<lparr>sent = 4, received = 3, lost = 1, loss = 1 / 4,
           shortest = 5, longest = 1000, average = 253\<rparr>)
   \<and> (1 / 4 :: real) \<noteq> 1 / 4 * 100"
  by (simp add: ping_def ping_loop_step ping_loop_stop init_state_def transmit_def record_time_def
        Let_def env_one_timeout_def stray_datagram_def
        echo_request_0 echo_request_1 echo_request_2 echo_request_3
        read_buf_nth read_n_def wrap64_def ping_summary_def go_div_def maxAlloc_def)

text \<open>
  C4. The claim: with \<open>count = 0\<close> the summary is produced without a division by zero.
  The code evaluates \<^verbatim>\<open>totalTs/int64(sendCount)\<close> with \<^verbatim>\<open>sendCount = 0\<close>, which
  panics before anything is printed, for every transport and size.
\<close>

theorem summary_divides_by_zero:
  "ping True env size' 0 = Inl IntegerDivideByZero"
  by (simp add: ping_def ping_loop_stop init_state_def ping_summary_def)

text \<open>
  C5, as stated, fails when \<^verbatim>\<open>conn.Write\<close> returns an error: the iteration leaves
  the loop body at line 97, before the clock is read. An attempt whose write fails
  after 5 ms leaves the total at 0, the minimum at its initial 2147483647 and the
  maximum at 0.
\<close>

theorem write_failure_skips_timing:
  "write_err (env_write_fails 0) \<and> elapsed (env_write_fails 0) = 5
   \<and> attempt env_write_fails 32 0 init_state =
       Inr \<lparr>sendCount = 1, successCount = 0, failCount = 1,
            minTs = 2147483647, maxTs = 0, totalTs = 0,
            wire = [[8, 0, 0xF7, 0xFF, 0, 0, 0, 0] @ replicate 32 0],
            printed = [RequestFailed]\<rparr>
   \<and> totalTs init_state + 5 \<noteq> 0
   \<and> min (minTs init_state) 5 \<noteq> 2147483647
   \<and> max (maxTs init_state) 5 \<noteq> 0"
proof -
  have "attempt env_write_fails 32 0 init_state =
       Inr \<lparr>sendCount = 1, successCount = 0, failCount = 1,
            minTs = 2147483647, maxTs = 0, totalTs = 0,
            wire = [[8, 0, 0xF7, 0xFF, 0, 0, 0, 0] @ replicate 32 0],
            printed = [RequestFailed]\<rparr>"
    by code_simp
  then show ?thesis
    by (simp add: env_write_fails_def init_state_def)
qed

text \<open>
  C5, amended. For every attempt that reaches \<^verbatim>\<open>conn.Write\<close> (its request buffer
  was allocated): when the write succeeds, whether the read then succeeds or fails
  (error or timeout), the elapsed time is added to \<^verbatim>\<open>totalTs\<close> (in \<^verbatim>\<open>int64\<close>
  arithmetic), \<^verbatim>\<open>minTs\<close> is lowered to it if it is smaller, \<^verbatim>\<open>maxTs\<close> is raised
  to it if it is larger, and the attempt is counted as succeeded or failed by the
  read; when the write fails, the attempt is counted as failed and the three are
  unchanged.
\<close>

theorem attempt_timing:
  "(attempt env size' i st = Inr st' \<longrightarrow>
      sendCount st' = sendCount st + 1
      \<and> (if write_err (env i)
         then failCount st' = failCount st + 1 \<and> successCount st' = successCount st
            \<and> totalTs st' = totalTs st \<and> minTs st' = minTs st \<and> maxTs st' = maxTs st
         else totalTs st' = wrap64 (totalTs st + elapsed (env i))
            \<and> minTs st' = min (minTs st) (elapsed (env i))
            \<and> maxTs st' = max (maxTs st) (elapsed (env i))
            \<and> failCount st' = failCount st + (if read_err (env i) then 1 else 0)
            \<and> successCount st' = successCount st + (if read_err (env i) then 0 else 1)))
   \<and> ((\<exists>st'. attempt env size' i st = Inr st')
        \<longleftrightarrow> (0 \<le> size' \<and> 8 + size' \<le> maxAlloc \<and> \<not> no_memory (env i)))"
proof
  show "attempt env size' i st = Inr st' \<longrightarrow>
      sendCount st' = sendCount st + 1
      \<and> (if write_err (env i)
         then failCount st' = failCount st + 1 \<and> successCount st' = successCount st
            \<and> totalTs st' = totalTs st \<and> minTs st' = minTs st \<and> maxTs st' = maxTs st
         else totalTs st' = wrap64 (totalTs st + elapsed (env i))
            \<and> minTs st' = min (minTs st) (elapsed (env i))
            \<and> maxTs st' = max (maxTs st) (elapsed (env i))
            \<and> failCount st' = failCount st + (if read_err (env i) then 1 else 0)
            \<and> successCount st' = successCount st + (if read_err (env i) then 0 else 1))"
  proof
    assume a: "attempt env size' i st = Inr st'"
    show "sendCount st' = sendCount st + 1
      \<and> (if write_err (env i)
         then failCount st' = failCount st + 1 \<and> successCount st' = successCount st
            \<and> totalTs st' = totalTs st \<and> minTs st' = minTs st \<and> maxTs st' = maxTs st
         else totalTs st' = wrap64 (totalTs st + elapsed (env i))
            \<and> minTs st' = min (minTs st) (elapsed (env i))
            \<and> maxTs st' = max (maxTs st) (elapsed (env i))
            \<and> failCount st' = failCount st + (if read_err (env i) then 1 else 0)
            \<and> successCount st' = successCount st + (if read_err (env i) then 0 else 1))"
      using attempt_classified [OF a] by simp
  qed
next
  show "(\<exists>st'. attempt env size' i st = Inr st')
        \<longleftrightarrow> (0 \<le> size' \<and> 8 + size' \<le> maxAlloc \<and> \<not> no_memory (env i))"
    by (rule attempt_returns_iff)
qed

text \<open>A timed-out read, a successful read and a failed write, each as a first attempt.\<close>

theorem attempt_timing_witness:
  "(\<exists>st'. attempt env_one_timeout 32 2 init_state = Inr st'
          \<and> totalTs st' = 1000 \<and> minTs st' = 1000 \<and> maxTs st' = 1000
          \<and> failCount st' = 1 \<and> successCount st' = 0)
   \<and> (\<exists>st'. attempt env_one_timeout 32 3 init_state = Inr st'
          \<and> totalTs st' = 5 \<and> minTs st' = 5 \<and> maxTs st' = 5
          \<and> failCount st' = 0 \<and> successCount st' = 1)
   \<and> (\<exists>st'. attempt env_write_fails 32 0 init_state = Inr st'
          \<and> totalTs st' = 0 \<and> minTs st' = 2147483647 \<and> maxTs st' = 0
          \<and> failCount st' = 1 \<and> successCount st' = 0)"
proof -
  have "\<exists>st'. attempt env_one_timeout 32 2 init_state = Inr st'"
    using attempt_timing [of env_one_timeout 32 2 init_state, THEN conjunct2]
    by (simp add: env_one_timeout_def maxAlloc_def)
  then obtain s2 where a2: "attempt env_one_timeout 32 2 init_state = Inr s2"
    by blast
  have "\<exists>st'. attempt env_one_timeout 32 3 init_state = Inr st'"
    using attempt_timing [of env_one_timeout 32 3 init_state, THEN conjunct2]
    by (simp add: env_one_timeout_def maxAlloc_def)
  then obtain s3 where a3: "attempt env_one_timeout 32 3 init_state = Inr s3"
    by blast
  have "\<exists>st'. attempt env_write_fails 32 0 init_state = Inr st'"
    using attempt_timing [of env_write_fails 32 0 init_state, THEN conjunct2]
    by (simp add: env_write_fails_def maxAlloc_def)
  then obtain s0 where a0: "attempt env_write_fails 32 0 init_state = Inr s0"
    by blast
  from attempt_timing [of env_one_timeout 32 2 init_state s2, THEN conjunct1] a2
  have p2: "totalTs s2 = 1000 \<and> minTs s2 = 1000 \<and> maxTs s2 = 1000 \<and> failCount s2 = 1 \<and> successCount s2 = 0"
    by (simp add: env_one_timeout_def init_state_def wrap64_def)
  from attempt_timing [of env_one_timeout 32 3 init_state s3, THEN conjunct1] a3
  have p3: "totalTs s3 = 5 \<and> minTs s3 = 5 \<and> maxTs s3 = 5 \<and> failCount s3 = 0 \<and> successCount s3 = 1"
    by (simp add: env_one_timeout_def init_state_def wrap64_def)
  from attempt_timing [of env_write_fails 32 0 init_state s0, THEN conjunct1] a0
  have p0: "totalTs s0 = 0 \<and> minTs s0 = 2147483647 \<and> maxTs s0 = 0 \<and> failCount s0 = 1 \<and> successCount s0 = 0"
    by (simp add: env_write_fails_def init_state_def)
  from a2 p2 a3 p3 a0 p0 show ?thesis
    by blast
qed

text \<open>
  C6, as stated, fails when a write fails: the attempt counts in \<^verbatim>\<open>sendCount\<close>,
  the divisor of the average, and adds nothing to \<^verbatim>\<open>totalTs\<close>. With a failed
  write followed by a reply after 5 ms the minimum is 5 and the average is 5 / 2 = 2.
\<close>

theorem write_failures_break_min_le_avg:
  "ping True env_write_fails_once 32 2 =
     Inr (\<lparr>sendCount = 2, successCount = 1, failCount = 1,
           minTs = 5, maxTs = 5, totalTs = 5,
           wire = [[8, 0, 0xF7, 0xFF, 0, 0, 0, 0] @ replicate 32 0,
                   [8, 0, 0xF7, 0xFD, 0, 1, 0, 1] @ replicate 32 0],
           printed = [RequestFailed, Reply 192 168 1 1 4 5 64]\<rparr>,
          \<lparr>sent = 2, received = 1, lost = 1, loss = 1 / 2,
           shortest = 5, longest = 5, average = 2\<rparr>)
   \<and> \<not> ((5::int) \<le> 2)"
  by (simp add: ping_def ping_loop_step ping_loop_stop init_state_def transmit_def record_time_def
        Let_def env_write_fails_once_def env_write_fails_def env_one_timeout_def stray_datagram_def
        echo_request_0 echo_request_1 read_buf_nth read_n_def wrap64_def ping_summary_def go_div_def
        maxAlloc_def)

text \<open>
  C6, amended. For every completed run (its \<open>sent\<close> is then above 0) in which the sum
  of the measured times fits an \<^verbatim>\<open>int64\<close>: the average \<^verbatim>\<open>totalTs / sent\<close> is at
  most \<^verbatim>\<open>maxTs\<close>; when at least one write succeeded, \<^verbatim>\<open>minTs\<close> is at most
  \<^verbatim>\<open>maxTs\<close>; when no write failed, \<^verbatim>\<open>minTs\<close> is at most the average. A run with
  a positive count completes when the size is at least 0, the buffer is within the
  limit of \<^verbatim>\<open>make\<close>, and the memory is there in every iteration.
\<close>

theorem avg_between_min_and_max:
  "(ping True env size' count = Inr (st, s)
      \<and> - (2 ^ 63) \<le> measured_total env count \<and> measured_total env count < 2 ^ 63 \<longrightarrow>
      0 < sent s
      \<and> average s = go_div (totalTs st) (sent s)
      \<and> average s \<le> longest s
      \<and> ((\<exists>i. 0 \<le> i \<and> i < count \<and> \<not> write_err (env i)) \<longrightarrow> shortest s \<le> longest s)
      \<and> ((\<forall>i. 0 \<le> i \<and> i < count \<longrightarrow> \<not> write_err (env i)) \<longrightarrow> shortest s \<le> average s))
   \<and> (0 < count \<and> 0 \<le> size' \<and> 8 + size' \<le> maxAlloc
        \<and> (\<forall>i. 0 \<le> i \<and> i < count \<longrightarrow> \<not> no_memory (env i)) \<longrightarrow>
      (\<exists>st s. ping True env size' count = Inr (st, s)))"
proof
  show "ping True env size' count = Inr (st, s)
      \<and> - (2 ^ 63) \<le> measured_total env count \<and> measured_total env count < 2 ^ 63 \<longrightarrow>
      0 < sent s
      \<and> average s = go_div (totalTs st) (sent s)
      \<and> average s \<le> longest s
      \<and> ((\<exists>i. 0 \<le> i \<and> i < count \<and> \<not> write_err (env i)) \<longrightarrow> shortest s \<le> longest s)
      \<and> ((\<forall>i. 0 \<le> i \<and> i < count \<longrightarrow> \<not> write_err (env i)) \<longrightarrow> shortest s \<le> average s)"
  proof
    assume h: "ping True env size' count = Inr (st, s)
      \<and> - (2 ^ 63) \<le> measured_total env count \<and> measured_total env count < 2 ^ 63"
    then have p: "ping True env size' count = Inr (st, s)"
      and lo: "- (2 ^ 63) \<le> measured_total env count" and hi: "measured_total env count < 2 ^ 63"
      by simp_all
    note c = completed_run_latencies [OF p lo hi]
    from c(1) c(2) c(3) c(4) c(5)
    show "0 < sent s
      \<and> average s = go_div (totalTs st) (sent s)
      \<and> average s \<le> longest s
      \<and> ((\<exists>i. 0 \<le> i \<and> i < count \<and> \<not> write_err (env i)) \<longrightarrow> shortest s \<le> longest s)
      \<and> ((\<forall>i. 0 \<le> i \<and> i < count \<longrightarrow> \<not> write_err (env i)) \<longrightarrow> shortest s \<le> average s)"
      by (intro conjI impI)
  qed
next
  show "0 < count \<and> 0 \<le> size' \<and> 8 + size' \<le> maxAlloc
        \<and> (\<forall>i. 0 \<le> i \<and> i < count \<longrightarrow> \<not> no_memory (env i)) \<longrightarrow>
      (\<exists>st s. ping True env size' count = Inr (st, s))"
    using ping_returns [of count size' env] by blast
qed

text \<open>
  Four attempts of size 32, the third timing out: the run completes with minimum 5,
  average 253 and maximum 1000.
\<close>

theorem avg_between_min_and_max_witness:
  "\<exists>st s. ping True env_one_timeout 32 4 = Inr (st, s)
          \<and> - (2 ^ 63) \<le> measured_total env_one_timeout 4
          \<and> measured_total env_one_timeout 4 < 2 ^ 63
          \<and> 0 < sent s
          \<and> average s = go_div (totalTs st) (sent s)
          \<and> average s \<le> longest s
          \<and> shortest s \<le> longest s
          \<and> shortest s \<le> average s"
proof -
  have m: "measured_total env_one_timeout 4 = 1015"
    by (simp add: measured_total_def measured_def env_one_timeout_def upto_rec1)
  have nw: "\<forall>i. 0 \<le> i \<and> i < 4 \<longrightarrow> \<not> write_err (env_one_timeout i)"
    by (simp add: env_one_timeout_def)
  have ex: "\<exists>i. 0 \<le> i \<and> i < 4 \<and> \<not> write_err (env_one_timeout i)"
    by (rule exI [of _ 0]) (simp add: env_one_timeout_def)
  have "\<exists>st s. ping True env_one_timeout 32 4 = Inr (st, s)"
    using avg_between_min_and_max [of env_one_timeout 32 4, THEN conjunct2]
    by (simp add: env_one_timeout_def maxAlloc_def)
  then obtain st s where p: "ping True env_one_timeout 32 4 = Inr (st, s)"
    by blast
  from avg_between_min_and_max [of env_one_timeout 32 4 st s, THEN conjunct1] p nw ex
  have "0 < sent s \<and> average s = go_div (totalTs st) (sent s) \<and> average s \<le> longest s
        \<and> shortest s \<le> longest s \<and> shortest s \<le> average s"
    by (simp add: m)
  with p show ?thesis
    by (auto simp: m)
qed

text \<open>
  C7. For every run whose loop completes, whatever the count and the outcomes of the
  attempts, \<^verbatim>\<open>sendCount = successCount + failCount\<close> at completion (and
  \<^verbatim>\<open>sendCount\<close> is the number of iterations), and the final summary reports
  sent = received + lost; each completed iteration increments \<^verbatim>\<open>sendCount\<close> once
  and exactly one of \<^verbatim>\<open>successCount\<close> and \<^verbatim>\<open>failCount\<close>. The loop completes
  when the size is at least 0, the buffer is within the limit of \<^verbatim>\<open>make\<close>, and
  the memory is there in every iteration.
\<close>

theorem sent_is_succeeded_plus_failed:
  "(ping_loop env size' count 0 init_state = Inr st \<longrightarrow>
      sendCount st = successCount st + failCount st \<and> sendCount st = max 0 count)
   \<and> (ping True env size' count = Inr (st, sm) \<longrightarrow> sent sm = received sm + lost sm)
   \<and> (attempt env size' i s = Inr s' \<longrightarrow>
        sendCount s' = sendCount s + 1
        \<and> (successCount s' = successCount s + 1 \<and> failCount s' = failCount s
           \<or> successCount s' = successCount s \<and> failCount s' = failCount s + 1))
   \<and> (0 \<le> size' \<and> 8 + size' \<le> maxAlloc
        \<and> (\<forall>j. 0 \<le> j \<and> j < count \<longrightarrow> \<not> no_memory (env j)) \<longrightarrow>
      (\<exists>st. ping_loop env size' count 0 init_state = Inr st))"
proof -
  have loop: "sendCount st = successCount st + failCount st \<and> sendCount st = max 0 count"
    if run: "ping_loop env size' count 0 init_state = Inr st" for st
    using ping_loop_counts [OF run] by (simp add: init_state_def)
  have summ: "sent sm = received sm + lost sm" if p: "ping True env size' count = Inr (st, sm)"
    using loop [OF ping_Inr(1) [OF p]] by (simp add: ping_Inr(3) [OF p])
  have step: "sendCount s' = sendCount s + 1
        \<and> (successCount s' = successCount s + 1 \<and> failCount s' = failCount s
           \<or> successCount s' = successCount s \<and> failCount s' = failCount s + 1)"
    if a: "attempt env size' i s = Inr s'"
    using attempt_classified [OF a] by simp
  have total: "\<exists>st. ping_loop env size' count 0 init_state = Inr st"
    if "0 \<le> size' \<and> 8 + size' \<le> maxAlloc \<and> (\<forall>j. 0 \<le> j \<and> j < count \<longrightarrow> \<not> no_memory (env j))"
    using that ping_loop_total [of size' 0 count env init_state] by blast
  from loop summ step total show ?thesis
    by blast
qed

theorem sent_is_succeeded_plus_failed_witness:
  "(\<exists>st. ping_loop env_one_timeout 32 4 0 init_state = Inr st
          \<and> sendCount st = successCount st + failCount st \<and> sendCount st = 4)
   \<and> (\<exists>s'. attempt env_one_timeout 32 2 init_state = Inr s'
          \<and> sendCount s' = 1
          \<and> (successCount s' = 1 \<and> failCount s' = 0 \<or> successCount s' = 0 \<and> failCount s' = 1))"
proof -
  have "\<exists>st. ping_loop env_one_timeout 32 4 0 init_state = Inr st"
    using sent_is_succeeded_plus_failed [of env_one_timeout 32 4, THEN conjunct2, THEN conjunct2,
        THEN conjunct2]
    by (simp add: env_one_timeout_def maxAlloc_def)
  then obtain st where run: "ping_loop env_one_timeout 32 4 0 init_state = Inr st"
    by blast
  from sent_is_succeeded_plus_failed [of env_one_timeout 32 4 st, THEN conjunct1] run
  have l: "sendCount st = successCount st + failCount st \<and> sendCount st = 4"
    by simp
  obtain s' where a: "attempt env_one_timeout 32 2 init_state = Inr s'"
    by (simp add: attempt_cases env_one_timeout_def maxAlloc_def)
  from sent_is_succeeded_plus_failed [of env_one_timeout 32 4 st _ 2 init_state s',
      THEN conjunct2, THEN conjunct2, THEN conjunct1] a
  have "sendCount s' = 1
          \<and> (successCount s' = 1 \<and> failCount s' = 0 \<or> successCount s' = 0 \<and> failCount s' = 1)"
    by (simp add: init_state_def)
  with a run l show ?thesis
    by blast
qed

text \<open>
  C8. In every attempt in which the write and the read return no error, whatever
  bytes the read delivered, the attempt counts as a success and prints a reply line
  with bytes 12-15 of the receive buffer as the address, the number of bytes read
  minus 28 as the length, the elapsed time, and byte 8 as the TTL. An attempt gets
  that far exactly when its request buffer is allocated.
\<close>

theorem any_datagram_is_the_reply:
  "(attempt env size' i st = Inr st' \<and> \<not> write_err (env i) \<and> \<not> read_err (env i) \<longrightarrow>
      successCount st' = successCount st + 1
      \<and> failCount st' = failCount st
      \<and> printed st' = printed st @
           [Reply (read_buf (rcv (env i)) ! 12) (read_buf (rcv (env i)) ! 13)
                  (read_buf (rcv (env i)) ! 14) (read_buf (rcv (env i)) ! 15)
                  (read_n (rcv (env i)) - 28) (elapsed (env i))
                  (read_buf (rcv (env i)) ! 8)])
   \<and> ((\<exists>st'. attempt env size' i st = Inr st')
        \<longleftrightarrow> (0 \<le> size' \<and> 8 + size' \<le> maxAlloc \<and> \<not> no_memory (env i)))"
proof
  show "attempt env size' i st = Inr st' \<and> \<not> write_err (env i) \<and> \<not> read_err (env i) \<longrightarrow>
      successCount st' = successCount st + 1
      \<and> failCount st' = failCount st
      \<and> printed st' = printed st @
           [Reply (read_buf (rcv (env i)) ! 12) (read_buf (rcv (env i)) ! 13)
                  (read_buf (rcv (env i)) ! 14) (read_buf (rcv (env i)) ! 15)
                  (read_n (rcv (env i)) - 28) (elapsed (env i))
                  (read_buf (rcv (env i)) ! 8)]"
  proof
    assume h: "attempt env size' i st = Inr st' \<and> \<not> write_err (env i) \<and> \<not> read_err (env i)"
    then have a: "attempt env size' i st = Inr st'"
      and w: "\<not> write_err (env i)" and r: "\<not> read_err (env i)"
      by simp_all
    from attempt_classified(3,4) [OF a] attempt_reply_line [OF a w r] w r
    show "successCount st' = successCount st + 1
      \<and> failCount st' = failCount st
      \<and> printed st' = printed st @
           [Reply (read_buf (rcv (env i)) ! 12) (read_buf (rcv (env i)) ! 13)
                  (read_buf (rcv (env i)) ! 14) (read_buf (rcv (env i)) ! 15)
                  (read_n (rcv (env i)) - 28) (elapsed (env i))
                  (read_buf (rcv (env i)) ! 8)]"
      by simp
  qed
next
  show "(\<exists>st'. attempt env size' i st = Inr st')
        \<longleftrightarrow> (0 \<le> size' \<and> 8 + size' \<le> maxAlloc \<and> \<not> no_memory (env i))"
    by (rule attempt_returns_iff)
qed

text \<open>
  The datagram read is not an Echo Reply (its ICMP type, at offset 20, is 8) and
  carries the identifier 0x1234 and the sequence number 0x5678; it is accepted as
  the reply to request 0, whose identifier and sequence number are 0.
\<close>

theorem any_datagram_is_the_reply_witness:
  "\<not> write_err (env_one_timeout 0) \<and> \<not> read_err (env_one_timeout 0)
   \<and> rcv (env_one_timeout 0) ! 20 = 8
   \<and> [rcv (env_one_timeout 0) ! 24, rcv (env_one_timeout 0) ! 25] = be16 0x1234
   \<and> [rcv (env_one_timeout 0) ! 26, rcv (env_one_timeout 0) ! 27] = be16 0x5678
   \<and> (\<exists>st'. attempt env_one_timeout 32 0 init_state = Inr st'
          \<and> successCount st' = 1 \<and> failCount st' = 0
          \<and> printed st' = [Reply 192 168 1 1 4 5 64])"
proof -
  have "\<exists>st'. attempt env_one_timeout 32 0 init_state = Inr st'"
    using any_datagram_is_the_reply [of env_one_timeout 32 0 init_state, THEN conjunct2]
    by (simp add: env_one_timeout_def maxAlloc_def)
  then obtain st' where a: "attempt env_one_timeout 32 0 init_state = Inr st'"
    by blast
  from any_datagram_is_the_reply [of env_one_timeout 32 0 init_state st', THEN conjunct1] a
  have "successCount st' = 1 \<and> failCount st' = 0 \<and> printed st' = [Reply 192 168 1 1 4 5 64]"
    by (simp add: env_one_timeout_def stray_datagram_def init_state_def read_buf_nth read_n_def)
  with a show ?thesis
    by (auto simp: env_one_timeout_def stray_datagram_def be16_def)
qed

text \<open>
  C9. For every buffer of at least 4 bytes: when the checksum of the buffer with
  bytes 2 and 3 zeroed is written into bytes 2 and 3, high byte first, the
  checksum of the resulting buffer is zero.
\<close>

theorem embedded_checksum_verifies:
  assumes "4 \<le> length data"
  shows "\<exists>c. checkSum (data[2 := 0, 3 := 0]) = Inr (c, None)
           \<and> checkSum (data[2 := ucast (drop_bit 8 c), 3 := ucast c]) = Inr (0, None)"
proof -
  from assms obtain a b x y rest where data: "data = a # b # x # y # rest"
    by (rule four_bytes)
  let ?W = "wsum (a # b # 0 # 0 # rest)"
  let ?c = "ucast (NOT (checkSum_fold ?W)) :: u16"
  have z: "checkSum (data[2 := 0, 3 := 0]) = Inr (?c, None)"
    by (simp add: data checkSum_eq del: wsum.simps)
  have "wsum (data[2 := ucast (drop_bit 8 ?c), 3 := ucast ?c]) = ?W + ucast ?c"
    unfolding data
    by (simp add: wsum_update [of a b "ucast (drop_bit 8 ?c)"] split_be16 del: wsum.simps)
  then have "checkSum (data[2 := ucast (drop_bit 8 ?c), 3 := ucast ?c]) = Inr (0, None)"
    by (simp add: checkSum_eq fold_of_embedded del: wsum.simps)
  with z show ?thesis by blast
qed

theorem embedded_checksum_verifies_witness:
  "4 \<le> length [8, 0, 0xAB, 0xCD, 0, 1, 0, 1 :: u8]
   \<and> (\<exists>c. checkSum [8, 0, 0, 0, 0, 1, 0, 1] = Inr (c, None)
          \<and> checkSum [8, 0, ucast (drop_bit 8 c), ucast c, 0, 1, 0, 1] = Inr (0, None))"
  using embedded_checksum_verifies [of "[8, 0, 0xAB, 0xCD, 0, 1, 0, 1]"] by simp

text \<open>
  C10. \<^verbatim>\<open>checkSum\<close> returns a nil error for every byte sequence, so every attempt
  that completes has reached \<^verbatim>\<open>conn.Write\<close> (one more datagram is on the wire) and
  has raised \<^verbatim>\<open>failCount\<close> only when the write or the read returned an error. An
  attempt completes exactly when its request buffer is allocated.
\<close>

theorem checksum_failure_unreachable:
  "(\<exists>c. checkSum data = Inr (c, None))
   \<and> (attempt env size' i st = Inr st' \<longrightarrow>
        (\<exists>d. wire st' = wire st @ [d])
        \<and> failCount st' = failCount st + (if write_err (env i) \<or> read_err (env i) then 1 else 0))
   \<and> ((\<exists>st'. attempt env size' i st = Inr st')
        \<longleftrightarrow> (0 \<le> size' \<and> 8 + size' \<le> maxAlloc \<and> \<not> no_memory (env i)))"
proof -
  have nil: "\<exists>c. checkSum data = Inr (c, None)"
    by (simp add: checkSum_eq)
  have reach: "(\<exists>d. wire st' = wire st @ [d])
        \<and> failCount st' = failCount st + (if write_err (env i) \<or> read_err (env i) then 1 else 0)"
    if a: "attempt env size' i st = Inr st'"
    using attempt_classified(2,3) [OF a] by simp
  from nil reach attempt_returns_iff [of env size' i st] show ?thesis
    by blast
qed

text \<open>The three-byte vector of C1, and a first attempt that reads a datagram.\<close>

theorem checksum_failure_unreachable_witness:
  "(\<exists>c. checkSum [0xFF, 0xFF, 0x01] = Inr (c, None))
   \<and> (\<exists>st' d. attempt env_one_timeout 32 0 init_state = Inr st'
          \<and> wire st' = [d] \<and> failCount st' = 0)"
proof -
  note t = checksum_failure_unreachable [of "[0xFF, 0xFF, 0x01]" env_one_timeout 32 0 init_state]
  have "\<exists>st'. attempt env_one_timeout 32 0 init_state = Inr st'"
    using t [THEN conjunct2, THEN conjunct2] by (simp add: env_one_timeout_def maxAlloc_def)
  then obtain st' where a: "attempt env_one_timeout 32 0 init_state = Inr st'"
    by blast
  from checksum_failure_unreachable [of "[0xFF, 0xFF, 0x01]" env_one_timeout 32 0 init_state st',
      THEN conjunct2, THEN conjunct1] a
  have "(\<exists>d. wire st' = [d]) \<and> failCount st' = 0"
    by (simp add: env_one_timeout_def init_state_def)
  with a t [THEN conjunct1] show ?thesis
    by blast
qed

end
